theory Spec2Isabelle
  imports Main "HOL-Library.Char_ord" "HOL-Library.List_Lexorder"
begin

section \<open>Python values and exceptions\<close>

text \<open>
  The program is \<^verbatim>\<open>src/lib/query_large_dataset.py\<close>: class \<^verbatim>\<open>LACrimeDatQuerier\<close>
  and \<^verbatim>\<open>main\<close>. Every \<^verbatim>\<open>raise\<close> is a value \<open>Inl e\<close> of a sum type, every
  \<^verbatim>\<open>try/except Exception\<close> a case distinction on it. The \<^verbatim>\<open>print\<close> calls only
  write to the console and \<^verbatim>\<open>time.sleep(0.1)\<close> only waits: they are left out, except
  for the one expression inside a \<^verbatim>\<open>print\<close> that can raise.
\<close>

datatype exn =
    RequestException | HTTPError | JSONDecodeError
  | TypeError | IndexError | KeyError | ValueError | AttributeError | OSError

text \<open>
  What \<^verbatim>\<open>response.json()\<close> can return: \<^verbatim>\<open>None\<close>, \<^verbatim>\<open>bool\<close>, \<^verbatim>\<open>int\<close>, \<^verbatim>\<open>str\<close>,
  \<^verbatim>\<open>list\<close> and \<^verbatim>\<open>dict\<close> (string keys, in insertion order, taken to be distinct as
  in a Python dict). JSON numbers with a fraction or an exponent (Python \<^verbatim>\<open>float\<close>) are
  not represented.
\<close>

datatype jvalue =
    JNull
  | JBool bool
  | JInt int
  | JStr string
  | JArr "jvalue list"
  | JObj "(string \<times> jvalue) list"

definition and_then :: "exn + 'a \<Rightarrow> ('a \<Rightarrow> exn + 'b) \<Rightarrow> exn + 'b" where
  "and_then m f = (case m of Inl e \<Rightarrow> Inl e | Inr a \<Rightarrow> f a)"

text \<open>Truth value of an object, as tested by \<^verbatim>\<open>not data\<close> and \<^verbatim>\<open>if data\<close>.\<close>

fun truthy :: "jvalue \<Rightarrow> bool" where
  "truthy JNull = False"
| "truthy (JBool b) = b"
| "truthy (JInt n) = (n \<noteq> 0)"
| "truthy (JStr s) = (s \<noteq> [])"
| "truthy (JArr xs) = (xs \<noteq> [])"
| "truthy (JObj kvs) = (kvs \<noteq> [])"

text \<open>\<^verbatim>\<open>len(x)\<close>: defined on sized objects, \<^verbatim>\<open>TypeError\<close> on the others.\<close>

fun py_len :: "jvalue \<Rightarrow> exn + nat" where
  "py_len (JStr s) = Inr (length s)"
| "py_len (JArr xs) = Inr (length xs)"
| "py_len (JObj kvs) = Inr (length kvs)"
| "py_len _ = Inl TypeError"

text \<open>\<^verbatim>\<open>x[i]\<close> for an index \<open>i \<ge> 0\<close>. A dict from JSON has string keys only, so an integer
  subscript is a missing key.\<close>

fun getitem_index :: "jvalue \<Rightarrow> nat \<Rightarrow> exn + jvalue" where
  "getitem_index (JArr xs) i = (if i < length xs then Inr (xs ! i) else Inl IndexError)"
| "getitem_index (JStr s) i = (if i < length s then Inr (JStr [s ! i]) else Inl IndexError)"
| "getitem_index (JObj kvs) i = Inl KeyError"
| "getitem_index _ i = Inl TypeError"

text \<open>\<^verbatim>\<open>x[k]\<close> for a string \<open>k\<close>.\<close>

fun getitem_key :: "jvalue \<Rightarrow> string \<Rightarrow> exn + jvalue" where
  "getitem_key (JObj kvs) k = (case map_of kvs k of None \<Rightarrow> Inl KeyError | Some v \<Rightarrow> Inr v)"
| "getitem_key _ k = Inl TypeError"

text \<open>
  \<^verbatim>\<open>int(x)\<close>. What the built-in does on a \<^verbatim>\<open>str\<close> (which literals it accepts) belongs
  to the interpreter, not to this program: it is the parameter \<open>int_str\<close>, \<open>None\<close> for
  \<^verbatim>\<open>ValueError\<close>.
\<close>

fun py_int :: "(string \<Rightarrow> int option) \<Rightarrow> jvalue \<Rightarrow> exn + int" where
  "py_int int_str (JInt n) = Inr n"
| "py_int int_str (JBool b) = Inr (if b then 1 else 0)"
| "py_int int_str (JStr s) = (case int_str s of None \<Rightarrow> Inl ValueError | Some n \<Rightarrow> Inr n)"
| "py_int int_str _ = Inl TypeError"

text \<open>The items an object yields when iterated (\<^verbatim>\<open>list.extend\<close>, \<^verbatim>\<open>for record in data\<close>):
  a list its elements, a dict its keys, a string its characters.\<close>

fun py_iter :: "jvalue \<Rightarrow> exn + jvalue list" where
  "py_iter (JArr xs) = Inr xs"
| "py_iter (JObj kvs) = Inr (map (\<lambda>kv. JStr (fst kv)) kvs)"
| "py_iter (JStr s) = Inr (map (\<lambda>c. JStr [c]) s)"
| "py_iter _ = Inl TypeError"

section \<open>The remote service\<close>

text \<open>
  A request is the \<^verbatim>\<open>params\<close> dict and the \<^verbatim>\<open>timeout\<close> given to \<^verbatim>\<open>session.get\<close>
  (the URL is fixed). A response is what the program asks of it: its HTTP status code,
  on which \<^verbatim>\<open>raise_for_status()\<close> depends, and what \<^verbatim>\<open>json()\<close> returns (\<open>None\<close> when
  it raises). The remote side is a function from the position of a request in the run and
  the request to the reply, \<open>None\<close> when \<^verbatim>\<open>session.get\<close> itself raises (connection
  error, timeout); the requests issued so far are logged in \<open>sent\<close>.
\<close>

datatype param = PStr string | PInt int

record request =
  params :: "(string \<times> param) list"
  timeout :: nat

record response =
  status_code :: nat
  json_body :: "jvalue option"

record world =
  replies :: "nat \<Rightarrow> request \<Rightarrow> response option"
  sent :: "request list"

definition session_get :: "world \<Rightarrow> request \<Rightarrow> (exn + response) \<times> world" where
  "session_get w rq =
     ((case replies w (length (sent w)) rq of
         None \<Rightarrow> Inl RequestException
       | Some r \<Rightarrow> Inr r),
      w\<lparr>sent := sent w @ [rq]\<rparr>)"

text \<open>\<^verbatim>\<open>raise_for_status()\<close> of the \<^verbatim>\<open>requests\<close> library raises \<^verbatim>\<open>HTTPError\<close> for a client
  error (status 400 to 499) and for a server error (500 to 599), and for no other status.\<close>

definition http_error :: "response \<Rightarrow> bool" where
  "http_error r \<longleftrightarrow> 400 \<le> status_code r \<and> status_code r < 600"

definition raise_for_status :: "response \<Rightarrow> exn + unit" where
  "raise_for_status r = (if http_error r then Inl HTTPError else Inr ())"

definition json :: "response \<Rightarrow> exn + jvalue" where
  "json r = (case json_body r of None \<Rightarrow> Inl JSONDecodeError | Some v \<Rightarrow> Inr v)"

section \<open>LACrimeDatQuerier\<close>

subsection \<open>build_where_clause\<close>

text \<open>\<^verbatim>\<open>sep.join(xs)\<close>, and the character \<^verbatim>\<open>'\<close> of the f-string.\<close>

abbreviation (input) apostrophe :: char where
  "apostrophe \<equiv> CHR 0x27"

fun str_join :: "string \<Rightarrow> string list \<Rightarrow> string" where
  "str_join sep [] = []"
| "str_join sep [x] = x"
| "str_join sep (x # y # ys) = x @ sep @ str_join sep (y # ys)"

definition build_where_clause :: "string list \<Rightarrow> string \<Rightarrow> string \<Rightarrow> string" where
  "build_where_clause districts start_date end_date =
     (let district_list = str_join (apostrophe # '', '' @ [apostrophe]) districts
      in ''rpt_dist_no IN ('' @ [apostrophe] @ district_list @ [apostrophe]
           @ '') AND date_occ >= '' @ [apostrophe] @ start_date @ [apostrophe]
           @ '' AND date_occ <= '' @ [apostrophe] @ end_date @ [apostrophe])"

subsection \<open>get_total_count\<close>

definition count_request :: "string \<Rightarrow> request" where
  "count_request where_clause =
     \<lparr>params = [(''$select'', PStr ''count(*)''), (''$where'', PStr where_clause)], timeout = 30\<rparr>"

text \<open>The expression \<^verbatim>\<open>int(data[0]['count'])\<close>.\<close>

definition count_of_body :: "(string \<Rightarrow> int option) \<Rightarrow> jvalue \<Rightarrow> exn + int" where
  "count_of_body int_str data =
     and_then (getitem_index data 0) (\<lambda>first.
     and_then (getitem_key first ''count'') (py_int int_str))"

definition get_total_count :: "(string \<Rightarrow> int option) \<Rightarrow> world \<Rightarrow> string \<Rightarrow> int \<times> world" where
  "get_total_count int_str w where_clause =
     (let (got, w') = session_get w (count_request where_clause)
      in (case and_then got (\<lambda>response.
               and_then (raise_for_status response) (\<lambda>_.
               and_then (json response) (count_of_body int_str))) of
            Inr n \<Rightarrow> n
          | Inl e \<Rightarrow> 0,
          w'))"

subsection \<open>query_with_pagination\<close>

definition page_request :: "string \<Rightarrow> int \<Rightarrow> int \<Rightarrow> request" where
  "page_request where_clause limit_per_page off =
     \<lparr>params = [(''$where'', PStr where_clause), (''$order'', PStr ''date_occ DESC''),
                (''$limit'', PInt limit_per_page), (''$offset'', PInt off)],
      timeout = 30\<rparr>"

text \<open>
  The variables of the \<^verbatim>\<open>while\<close> loop (\<^verbatim>\<open>page\<close> is only printed), with the
  remote side. One run of the loop body either leaves the loop (\<^verbatim>\<open>break\<close>: the page
  is falsy, or anything in the \<^verbatim>\<open>try\<close> block raised) or goes round again.
\<close>

record loop_state =
  ls_world :: world
  ls_offset :: int
  ls_records :: "jvalue list"

datatype step = Break loop_state | Again loop_state

definition pagination_body :: "string \<Rightarrow> int \<Rightarrow> loop_state \<Rightarrow> step" where
  "pagination_body where_clause limit_per_page s =
     (let (got, w') = session_get (ls_world s)
                        (page_request where_clause limit_per_page (ls_offset s))
      in case and_then got (\<lambda>response.
              and_then (raise_for_status response) (\<lambda>_. json response)) of
           Inl e \<Rightarrow> Break (s\<lparr>ls_world := w'\<rparr>)
         | Inr page_data \<Rightarrow>
             if \<not> truthy page_data then Break (s\<lparr>ls_world := w'\<rparr>)
             else (case py_iter page_data of
                     Inl e \<Rightarrow> Break (s\<lparr>ls_world := w'\<rparr>)
                   | Inr items \<Rightarrow>
                       Again \<lparr>ls_world = w',
                              ls_offset = ls_offset s + limit_per_page,
                              ls_records = ls_records s @ items\<rparr>))"

text \<open>The loop may run forever (a page size that is not positive, pages that never
  end): not returning is the value \<open>None\<close>.\<close>

partial_function (option) pagination_while ::
  "string \<Rightarrow> int \<Rightarrow> int \<Rightarrow> loop_state \<Rightarrow> loop_state option" where
  "pagination_while where_clause total_count limit_per_page s =
     (if ls_offset s < total_count then
        (case pagination_body where_clause limit_per_page s of
           Break s' \<Rightarrow> Some s'
         | Again s' \<Rightarrow> pagination_while where_clause total_count limit_per_page s')
      else Some s)"

definition query_with_pagination ::
  "(string \<Rightarrow> int option) \<Rightarrow> world \<Rightarrow> string list \<Rightarrow> string \<Rightarrow> string \<Rightarrow> int
     \<Rightarrow> (jvalue list \<times> world) option" where
  "query_with_pagination int_str w districts start_date end_date limit_per_page =
     (let where_clause = build_where_clause districts start_date end_date;
          (total_count, w1) = get_total_count int_str w where_clause
      in if total_count = 0 then Some ([], w1)
         else map_option (\<lambda>s. (ls_records s, ls_world s))
                (pagination_while where_clause total_count limit_per_page
                   \<lparr>ls_world = w1, ls_offset = 0, ls_records = []\<rparr>))"

subsection \<open>query_with_high_limit\<close>

definition bulk_request :: "string \<Rightarrow> int \<Rightarrow> request" where
  "bulk_request where_clause limit =
     \<lparr>params = [(''$where'', PStr where_clause), (''$order'', PStr ''date_occ DESC''),
                (''$limit'', PInt limit)],
      timeout = 60\<rparr>"

text \<open>The \<^verbatim>\<open>print\<close> inside the \<^verbatim>\<open>try\<close> block evaluates \<^verbatim>\<open>len(data)\<close>, which raises
  on a body that has no length; the handler then returns the empty list.\<close>

definition query_with_high_limit ::
  "world \<Rightarrow> string list \<Rightarrow> string \<Rightarrow> string \<Rightarrow> int \<Rightarrow> jvalue \<times> world" where
  "query_with_high_limit w districts start_date end_date limit =
     (let where_clause = build_where_clause districts start_date end_date;
          (got, w') = session_get w (bulk_request where_clause limit)
      in (case and_then got (\<lambda>response.
               and_then (raise_for_status response) (\<lambda>_.
               and_then (json response) (\<lambda>data.
               and_then (py_len data) (\<lambda>_. Inr data)))) of
            Inr data \<Rightarrow> data
          | Inl e \<Rightarrow> JArr [],
          w'))"

subsection \<open>save_to_csv\<close>

text \<open>
  The file system: the content of each path that exists, and whether
  \<^verbatim>\<open>open(filename, 'w')\<close> succeeds on a path (it raises \<^verbatim>\<open>OSError\<close> otherwise).
  Opening for writing creates or empties the file; what has been written is in the file
  when the \<^verbatim>\<open>with\<close> block is left, normally or by an exception.
\<close>

record filesystem =
  files :: "string \<Rightarrow> string option"
  writable :: "string \<Rightarrow> bool"

text \<open>\<^verbatim>\<open>record.keys()\<close>: only a dict has the method.\<close>

fun keys :: "jvalue \<Rightarrow> exn + string list" where
  "keys (JObj kvs) = Inr (map fst kvs)"
| "keys _ = Inl AttributeError"

text \<open>The first loop: \<^verbatim>\<open>all_keys.update(record.keys())\<close> for each record.\<close>

fun all_keys_of :: "jvalue list \<Rightarrow> string set \<Rightarrow> exn + string set" where
  "all_keys_of [] all_keys = Inr all_keys"
| "all_keys_of (r # rs) all_keys =
     and_then (keys r) (\<lambda>ks. all_keys_of rs (all_keys \<union> set ks))"

text \<open>
  \<^verbatim>\<open>csv.writer\<close> with the default dialect: delimiter \<^verbatim>\<open>,\<close>, quote character
  \<^verbatim>\<open>"\<close> doubled inside a quoted field, minimal quoting, line terminator CR LF. A field is
  \<^verbatim>\<open>''\<close> for \<^verbatim>\<open>None\<close>, the string itself for a \<^verbatim>\<open>str\<close>, and \<^verbatim>\<open>str(value)\<close> for
  anything else; the built-in \<^verbatim>\<open>str\<close> is the parameter \<open>str\<close>. A row that consists of
  one empty field is written as \<^verbatim>\<open>""\<close>.
\<close>

abbreviation (input) dquote :: char where
  "dquote \<equiv> CHR 0x22"

definition lineterminator :: string where
  "lineterminator = [CHR 0x0D, CHR 0x0A]"

fun csv_text :: "(jvalue \<Rightarrow> string) \<Rightarrow> jvalue \<Rightarrow> string" where
  "csv_text str JNull = []"
| "csv_text str (JStr s) = s"
| "csv_text str v = str v"

definition csv_field :: "string \<Rightarrow> string" where
  "csv_field s =
     (if filter (\<lambda>c. c = CHR '','' \<or> c = dquote \<or> c = CHR 0x0D \<or> c = CHR 0x0A) s = [] then s
      else dquote # concat (map (\<lambda>c. if c = dquote then [dquote, dquote] else [c]) s)
             @ [dquote])"

definition csv_row :: "string list \<Rightarrow> string" where
  "csv_row cells =
     (if cells = [[]] then [dquote, dquote] else str_join '','' (map csv_field cells))
     @ lineterminator"

text \<open>
  \<^verbatim>\<open>csv.DictWriter\<close> with \<^verbatim>\<open>restval=''\<close> and \<^verbatim>\<open>extrasaction='raise'\<close>:
  \<^verbatim>\<open>_dict_to_list\<close> raises \<^verbatim>\<open>ValueError\<close> when the row has a key that is not a field
  name, and otherwise yields \<^verbatim>\<open>rowdict.get(key, '')\<close> for each field name.
\<close>

definition dict_get :: "(string \<times> jvalue) list \<Rightarrow> string \<Rightarrow> jvalue \<Rightarrow> jvalue" where
  "dict_get kvs k restval = (case map_of kvs k of None \<Rightarrow> restval | Some v \<Rightarrow> v)"

fun dict_to_list :: "string list \<Rightarrow> jvalue \<Rightarrow> exn + jvalue list" where
  "dict_to_list fieldnames (JObj kvs) =
     (let wrong_fields = filter (\<lambda>k. k \<notin> set fieldnames) (map fst kvs)
      in if wrong_fields \<noteq> [] then Inl ValueError
         else Inr (map (\<lambda>key. dict_get kvs key (JStr [])) fieldnames))"
| "dict_to_list fieldnames _ = Inl AttributeError"

definition writerow :: "(jvalue \<Rightarrow> string) \<Rightarrow> string list \<Rightarrow> jvalue \<Rightarrow> exn + string" where
  "writerow str fieldnames rowdict =
     and_then (dict_to_list fieldnames rowdict) (\<lambda>row.
       Inr (csv_row (map (csv_text str) row)))"

definition writeheader :: "string list \<Rightarrow> string" where
  "writeheader fieldnames = csv_row fieldnames"

text \<open>The second loop, in the \<^verbatim>\<open>try\<close> block: \<open>text\<close> is what has been written so far;
  the result says whether every row was written.\<close>

fun write_rows ::
  "(jvalue \<Rightarrow> string) \<Rightarrow> string list \<Rightarrow> jvalue list \<Rightarrow> string \<Rightarrow> bool \<times> string" where
  "write_rows str fieldnames [] text = (True, text)"
| "write_rows str fieldnames (r # rs) text =
     (case writerow str fieldnames r of
        Inl e \<Rightarrow> (False, text)
      | Inr line \<Rightarrow> write_rows str fieldnames rs (text @ line))"

definition save_to_csv ::
  "(jvalue \<Rightarrow> string) \<Rightarrow> filesystem \<Rightarrow> jvalue \<Rightarrow> string \<Rightarrow> exn + bool \<times> filesystem" where
  "save_to_csv str fs data filename =
     (if \<not> truthy data then Inr (False, fs)
      else
        and_then (py_iter data) (\<lambda>records.
        and_then (all_keys_of records {}) (\<lambda>all_keys.
          let fieldnames = sorted_list_of_set all_keys
          in if \<not> writable fs filename then Inr (False, fs)
             else
               let (ok, text) = write_rows str fieldnames records (writeheader fieldnames)
               in Inr (ok, fs\<lparr>files := (files fs)(filename \<mapsto> text)\<rparr>))))"

section \<open>main\<close>

definition DISTRICTS :: "string list" where
  "DISTRICTS = [''645'', ''646'', ''647'', ''666'', ''663'', ''656'', ''676'']"

definition START_DATE :: string where
  "START_DATE = ''2025-07-26''"

definition END_DATE :: string where
  "END_DATE = ''2025-08-25''"

definition OUTPUT_FILE :: string where
  "OUTPUT_FILE = ''hollywood_crimes_30days_robust.csv''"

text \<open>The value of \<^verbatim>\<open>data\<close> when \<^verbatim>\<open>main\<close> reaches "Save to CSV": methods 1 and 2.\<close>

definition main_data ::
  "(string \<Rightarrow> int option) \<Rightarrow> world \<Rightarrow> (exn + jvalue \<times> world) option" where
  "main_data int_str w =
     (let (data, w1) = query_with_high_limit w DISTRICTS START_DATE END_DATE 50000;
          method2 = map_option (\<lambda>(records, w2). Inr (JArr records, w2))
                      (query_with_pagination int_str w1 DISTRICTS START_DATE END_DATE 1000)
      in if \<not> truthy data then method2
         else (case py_len data of
                 Inl e \<Rightarrow> Some (Inl e)
               | Inr n \<Rightarrow> if n = 50000 then method2 else Some (Inr (data, w1))))"

definition main ::
  "(string \<Rightarrow> int option) \<Rightarrow> (jvalue \<Rightarrow> string) \<Rightarrow> world \<Rightarrow> filesystem
     \<Rightarrow> (exn + world \<times> filesystem) option" where
  "main int_str str w fs =
     (case main_data int_str w of
        None \<Rightarrow> None
      | Some (Inl e) \<Rightarrow> Some (Inl e)
      | Some (Inr (data, w')) \<Rightarrow>
          Some (if truthy data then
                  and_then (save_to_csv str fs data OUTPUT_FILE) (\<lambda>(ok, fs'). Inr (w', fs'))
                else Inr (w', fs)))"

section \<open>Vocabulary of the properties\<close>

subsection \<open>Pages and runs of the pagination loop\<close>

text \<open>
  What the loop body makes of the reply to a page request: the \<^verbatim>\<open>try\<close> block raised
  (the request failed, the status was an error, the body was not JSON or could not be
  iterated), the page was falsy (zero records), or the page had records.
\<close>

datatype page = Failed | Empty | Records "jvalue list"

definition page_of :: "response option \<Rightarrow> page" where
  "page_of reply =
     (case reply of
        None \<Rightarrow> Failed
      | Some r \<Rightarrow>
          if http_error r then Failed
          else (case json_body r of
                  None \<Rightarrow> Failed
                | Some d \<Rightarrow>
                    if \<not> truthy d then Empty
                    else (case py_iter d of Inl e \<Rightarrow> Failed | Inr items \<Rightarrow> Records items)))"

fun page_records :: "page \<Rightarrow> jvalue list" where
  "page_records (Records items) = items"
| "page_records _ = []"

text \<open>The page that answers the \<open>i\<close>-th request of a loop that starts in world \<open>w\<close> at
  offset \<open>off\<close>.\<close>

definition nth_page :: "world \<Rightarrow> string \<Rightarrow> int \<Rightarrow> int \<Rightarrow> nat \<Rightarrow> page" where
  "nth_page w wc lim off i =
     page_of (replies w (length (sent w) + i) (page_request wc lim (off + int i * lim)))"

text \<open>The state after \<open>n\<close> requests of which the first \<open>k\<close> brought records, and what
  such a run looks like: all \<open>k\<close> pages had records, every request was made at an
  offset below the total, and the loop ended either because the offset reached the total
  or because the next page failed or was empty.\<close>

definition loop_result :: "string \<Rightarrow> int \<Rightarrow> loop_state \<Rightarrow> nat \<Rightarrow> nat \<Rightarrow> loop_state" where
  "loop_result wc lim s n k =
     \<lparr>ls_world = (ls_world s)\<lparr>sent := sent (ls_world s)
                    @ map (\<lambda>i. page_request wc lim (ls_offset s + int i * lim)) [0..<n]\<rparr>,
      ls_offset = ls_offset s + int k * lim,
      ls_records = ls_records s
         @ concat (map (\<lambda>i. page_records (nth_page (ls_world s) wc lim (ls_offset s) i)) [0..<k])\<rparr>"

definition run_shape :: "string \<Rightarrow> int \<Rightarrow> int \<Rightarrow> world \<Rightarrow> int \<Rightarrow> nat \<Rightarrow> nat \<Rightarrow> bool" where
  "run_shape wc total_count lim w off n k \<longleftrightarrow>
     (\<forall>i<k. \<exists>items. nth_page w wc lim off i = Records items) \<and>
     (\<forall>i<n. off + int i * lim < total_count) \<and>
     (n = k \<and> total_count \<le> off + int n * lim \<or>
      n = Suc k \<and> (nth_page w wc lim off k = Failed \<or> nth_page w wc lim off k = Empty))"


subsection \<open>Occurrences and quoted literals in a filter expression\<close>

text \<open>The number of positions of \<open>s\<close> at which \<open>p\<close> occurs.\<close>

fun occurrences :: "string \<Rightarrow> string \<Rightarrow> nat" where
  "occurrences p [] = (if p = [] then 1 else 0)"
| "occurrences p (c # s) = (if take (length p) (c # s) = p then 1 else 0) + occurrences p s"

text \<open>The pieces of a string between the occurrences of a character, and the
  single-quoted literals of an expression: every second piece between apostrophes.\<close>

fun split_on :: "char \<Rightarrow> string \<Rightarrow> string list" where
  "split_on c [] = [[]]"
| "split_on c (x # xs) =
     (if x = c then [] # split_on c xs
      else (case split_on c xs of [] \<Rightarrow> [[x]] | y # ys \<Rightarrow> (x # y) # ys))"

fun odd_items :: "'a list \<Rightarrow> 'a list" where
  "odd_items (a # b # xs) = b # odd_items xs"
| "odd_items _ = []"

definition quoted_literals :: "string \<Rightarrow> string list" where
  "quoted_literals s = odd_items (split_on apostrophe s)"

subsection \<open>Key sets\<close>

fun key_set :: "jvalue \<Rightarrow> string set" where
  "key_set (JObj kvs) = fst ` set kvs"
| "key_set _ = {}"

subsection \<open>Example inputs\<close>

text \<open>An instance of \<^verbatim>\<open>int\<close> on strings, for plain decimal literals.\<close>

definition decimal :: "string \<Rightarrow> int option" where
  "decimal s =
     (if s \<noteq> [] \<and> list_all (\<lambda>c. CHR ''0'' \<le> c \<and> c \<le> CHR ''9'') s
      then Some (foldl (\<lambda>a c. 10 * a + (int (of_char c) - 48)) 0 s)
      else None)"

text \<open>A remote side that answers the requests of a run from a script, one reply per
  request, and fails once the script is used up.\<close>

definition scripted :: "response option list \<Rightarrow> world" where
  "scripted script =
     \<lparr>replies = (\<lambda>n rq. if n < length script then script ! n else None), sent = []\<rparr>"

definition ok_response :: "jvalue \<Rightarrow> response option" where
  "ok_response v = Some \<lparr>status_code = 200, json_body = Some v\<rparr>"

definition count_body :: "string \<Rightarrow> jvalue" where
  "count_body c = JArr [JObj [(''count'', JStr c)]]"

definition crime :: "string \<Rightarrow> jvalue" where
  "crime n = JObj [(''dr_no'', JStr n), (''rpt_dist_no'', JStr ''645'')]"

definition filesystem0 :: filesystem where
  "filesystem0 = \<lparr>files = (\<lambda>p. None), writable = (\<lambda>p. True)\<rparr>"

section \<open>The pagination loop\<close>

lemma pagination_body_page:
  "pagination_body wc lim s =
     (case nth_page (ls_world s) wc lim (ls_offset s) 0 of
        Records items \<Rightarrow>
          Again \<lparr>ls_world = (ls_world s)\<lparr>sent := sent (ls_world s) @ [page_request wc lim (ls_offset s)]\<rparr>,
                 ls_offset = ls_offset s + lim,
                 ls_records = ls_records s @ items\<rparr>
      | _ \<Rightarrow> Break (s\<lparr>ls_world := (ls_world s)\<lparr>sent := sent (ls_world s) @ [page_request wc lim (ls_offset s)]\<rparr>\<rparr>))"
  by (simp add: pagination_body_def session_get_def nth_page_def page_of_def and_then_def
        raise_for_status_def json_def split: option.splits sum.splits)

lemma nth_page_shift:
  "nth_page (w\<lparr>sent := sent w @ [rq]\<rparr>) wc lim (off + lim) i = nth_page w wc lim off (Suc i)"
  by (simp add: nth_page_def algebra_simps)

lemma nth_page_shift':
  "nth_page (w\<lparr>sent := sent w @ [rq]\<rparr>) wc lim (lim + off) i = nth_page w wc lim off (Suc i)"
  by (simp add: nth_page_def algebra_simps)

lemma loop_result_0: "loop_result wc lim s 0 0 = s"
  by (simp add: loop_result_def)

lemma loop_result_1:
  "loop_result wc lim s (Suc 0) 0 =
     s\<lparr>ls_world := (ls_world s)\<lparr>sent := sent (ls_world s) @ [page_request wc lim (ls_offset s)]\<rparr>\<rparr>"
  by (simp add: loop_result_def)

lemma loop_result_Suc:
  assumes "nth_page (ls_world s) wc lim (ls_offset s) 0 = Records items"
  shows "loop_result wc lim
           \<lparr>ls_world = (ls_world s)\<lparr>sent := sent (ls_world s) @ [page_request wc lim (ls_offset s)]\<rparr>,
            ls_offset = ls_offset s + lim,
            ls_records = ls_records s @ items\<rparr> n k
         = loop_result wc lim s (Suc n) (Suc k)"
  using assms
  by (simp add: loop_result_def nth_page_shift nth_page_shift' map_upt_Suc algebra_simps del: upt_Suc)

lemma run_shape_Suc:
  assumes "nth_page w wc lim off 0 = Records items" "off < total_count"
    and "run_shape wc total_count lim (w\<lparr>sent := sent w @ [rq]\<rparr>) (off + lim) n k"
  shows "run_shape wc total_count lim w off (Suc n) (Suc k)"
proof -
  have a: "\<forall>i<Suc k. \<exists>items. nth_page w wc lim off i = Records items"
  proof (intro allI impI)
    fix i assume "i < Suc k"
    show "\<exists>items. nth_page w wc lim off i = Records items"
    proof (cases i)
      case 0 with assms(1) show ?thesis by simp
    next
      case (Suc j)
      with \<open>i < Suc k\<close> assms(3) show ?thesis
        by (auto simp: run_shape_def nth_page_shift)
    qed
  qed
  have b: "\<forall>i<Suc n. off + int i * lim < total_count"
  proof (intro allI impI)
    fix i assume "i < Suc n"
    show "off + int i * lim < total_count"
    proof (cases i)
      case 0 with assms(2) show ?thesis by simp
    next
      case (Suc j)
      with \<open>i < Suc n\<close> assms(3) have "off + lim + int j * lim < total_count"
        by (auto simp: run_shape_def)
      with Suc show ?thesis by (simp add: algebra_simps)
    qed
  qed
  have c: "Suc n = Suc k \<and> total_count \<le> off + int (Suc n) * lim \<or>
      Suc n = Suc (Suc k) \<and> (nth_page w wc lim off (Suc k) = Failed \<or> nth_page w wc lim off (Suc k) = Empty)"
    using assms(3) by (auto simp: run_shape_def nth_page_shift nth_page_shift' algebra_simps)
  from a b c show ?thesis unfolding run_shape_def by blast
qed

lemma pagination_while_run:
  assumes "0 < lim"
  shows "\<exists>n k. pagination_while wc total_count lim s = Some (loop_result wc lim s n k)
           \<and> run_shape wc total_count lim (ls_world s) (ls_offset s) n k"
proof (induction "nat (total_count - ls_offset s)" arbitrary: s rule: less_induct)
  case less
  show ?case
  proof (cases "ls_offset s < total_count")
    case False
    then have "pagination_while wc total_count lim s = Some (loop_result wc lim s 0 0)"
      by (subst pagination_while.simps) (simp add: loop_result_0)
    moreover from False have "run_shape wc total_count lim (ls_world s) (ls_offset s) 0 0"
      by (simp add: run_shape_def)
    ultimately show ?thesis by blast
  next
    case True
    show ?thesis
    proof (cases "nth_page (ls_world s) wc lim (ls_offset s) 0")
      case Failed
      with True have "pagination_while wc total_count lim s = Some (loop_result wc lim s (Suc 0) 0)"
        by (subst pagination_while.simps) (simp add: pagination_body_page loop_result_1)
      moreover from True Failed have "run_shape wc total_count lim (ls_world s) (ls_offset s) (Suc 0) 0"
        by (simp add: run_shape_def)
      ultimately show ?thesis by blast
    next
      case Empty
      with True have "pagination_while wc total_count lim s = Some (loop_result wc lim s (Suc 0) 0)"
        by (subst pagination_while.simps) (simp add: pagination_body_page loop_result_1)
      moreover from True Empty have "run_shape wc total_count lim (ls_world s) (ls_offset s) (Suc 0) 0"
        by (simp add: run_shape_def)
      ultimately show ?thesis by blast
    next
      case (Records items)
      define s' where "s' = \<lparr>ls_world = (ls_world s)\<lparr>sent := sent (ls_world s) @ [page_request wc lim (ls_offset s)]\<rparr>,
            ls_offset = ls_offset s + lim,
            ls_records = ls_records s @ items\<rparr>"
      from True Records have step: "pagination_while wc total_count lim s = pagination_while wc total_count lim s'"
        by (subst pagination_while.simps) (simp add: pagination_body_page s'_def)
      from True assms have "nat (total_count - ls_offset s') < nat (total_count - ls_offset s)"
        by (simp add: s'_def)
      from less[OF this] obtain n k where
        r: "pagination_while wc total_count lim s' = Some (loop_result wc lim s' n k)"
        and sh: "run_shape wc total_count lim (ls_world s') (ls_offset s') n k" by blast
      from r have "pagination_while wc total_count lim s = Some (loop_result wc lim s (Suc n) (Suc k))"
        unfolding step s'_def by (simp add: loop_result_Suc[OF Records])
      moreover from sh have "run_shape wc total_count lim (ls_world s) (ls_offset s) (Suc n) (Suc k)"
        unfolding s'_def using run_shape_Suc[OF Records True] by simp
      ultimately show ?thesis by blast
    qed
  qed
qed


section \<open>get_total_count\<close>

lemma snd_get_total_count:
  "snd (get_total_count int_str w wc) = w\<lparr>sent := sent w @ [count_request wc]\<rparr>"
  by (simp add: get_total_count_def session_get_def)

text \<open>
  Claim C4 as stated fails: not every status outside 200 to 299 makes
  \<^verbatim>\<open>get_total_count\<close> return 0. \<^verbatim>\<open>raise_for_status()\<close> raises for 400 to 599 only, so a
  reply with status 301 and the body \<^verbatim>\<open>[{"count": "9"}]\<close> is read like any other, and
  the function returns 9.
\<close>

theorem get_total_count_status_301_counts:
  "fst (get_total_count decimal
          (scripted [Some \<lparr>status_code = 301, json_body = Some (count_body ''9'')\<rparr>]) ''x'') = 9"
  by (simp add: get_total_count_def session_get_def scripted_def http_error_def count_body_def
        count_of_body_def and_then_def raise_for_status_def json_def decimal_def less_eq_char_def)

text \<open>
  Claim C4, amended. Whatever fails in the count request, \<^verbatim>\<open>get_total_count\<close> returns 0:
  the request itself (network or transport error), \<^verbatim>\<open>raise_for_status()\<close> (a status from
  400 to 599), \<^verbatim>\<open>json()\<close> (the body is not JSON), or the extraction
  \<^verbatim>\<open>int(data[0]['count'])\<close> of the count from the body. When nothing fails, that is for
  every other status and a body from which the count can be extracted, it returns the
  integer extracted from the body, for instance the value under \<^verbatim>\<open>count\<close> of the first
  object of the array. The function returns an integer in every case: no exception
  reaches the caller.
\<close>

theorem get_total_count_failure_zero:
  "let reply = replies w (length (sent w)) (count_request where_clause);
       c = fst (get_total_count int_str w where_clause)
   in (reply = None \<longrightarrow> c = 0) \<and>
      (\<forall>r. reply = Some r \<and> 400 \<le> status_code r \<and> status_code r < 600 \<longrightarrow> c = 0) \<and>
      (\<forall>r. reply = Some r \<and> json_body r = None \<longrightarrow> c = 0) \<and>
      (\<forall>r data e. reply = Some r \<and> json_body r = Some data \<and> count_of_body int_str data = Inl e
         \<longrightarrow> c = 0) \<and>
      (\<forall>r data n. reply = Some r \<and> (status_code r < 400 \<or> 600 \<le> status_code r)
         \<and> json_body r = Some data \<and> count_of_body int_str data = Inr n \<longrightarrow> c = n) \<and>
      (\<forall>r kvs rest v n. reply = Some r \<and> (status_code r < 400 \<or> 600 \<le> status_code r)
         \<and> json_body r = Some (JArr (JObj kvs # rest)) \<and> map_of kvs ''count'' = Some v
         \<and> py_int int_str v = Inr n \<longrightarrow> c = n)"
  by (auto simp: get_total_count_def session_get_def and_then_def raise_for_status_def
        http_error_def json_def count_of_body_def Let_def split: option.splits sum.splits)

theorem get_total_count_failure_zero_witness:
  "fst (get_total_count decimal (scripted [ok_response (count_body ''1234'')]) ''x'') = 1234 \<and>
   fst (get_total_count decimal (scripted [None]) ''x'') = 0 \<and>
   fst (get_total_count decimal
          (scripted [Some \<lparr>status_code = 404, json_body = Some (count_body ''1234'')\<rparr>]) ''x'') = 0 \<and>
   fst (get_total_count decimal
          (scripted [Some \<lparr>status_code = 503, json_body = Some (count_body ''1234'')\<rparr>]) ''x'') = 0 \<and>
   fst (get_total_count decimal (scripted [Some \<lparr>status_code = 200, json_body = None\<rparr>]) ''x'') = 0 \<and>
   fst (get_total_count decimal (scripted [ok_response (JArr [])]) ''x'') = 0"
  using get_total_count_failure_zero
          [of "scripted [ok_response (count_body ''1234'')]" "''x''" decimal]
    get_total_count_failure_zero [of "scripted [None]" "''x''" decimal]
    get_total_count_failure_zero
          [of "scripted [Some \<lparr>status_code = 404, json_body = Some (count_body ''1234'')\<rparr>]"
              "''x''" decimal]
    get_total_count_failure_zero
          [of "scripted [Some \<lparr>status_code = 503, json_body = Some (count_body ''1234'')\<rparr>]"
              "''x''" decimal]
    get_total_count_failure_zero
          [of "scripted [Some \<lparr>status_code = 200, json_body = None\<rparr>]" "''x''" decimal]
    get_total_count_failure_zero [of "scripted [ok_response (JArr [])]" "''x''" decimal]
  by (simp add: Let_def scripted_def ok_response_def count_body_def count_of_body_def
        and_then_def decimal_def less_eq_char_def)

section \<open>query_with_pagination\<close>

text \<open>
  Claim C5. If \<^verbatim>\<open>get_total_count\<close> returns 0, \<^verbatim>\<open>query_with_pagination\<close> returns the
  empty list at once: the only request it has issued is the count request, so no page
  request is made.
\<close>

theorem zero_count_no_page_requests:
  assumes "fst (get_total_count int_str w (build_where_clause districts start_date end_date)) = 0"
  shows "query_with_pagination int_str w districts start_date end_date limit_per_page =
     Some ([], w\<lparr>sent := sent w @ [count_request (build_where_clause districts start_date end_date)]\<rparr>)"
proof -
  obtain c w1 where g: "get_total_count int_str w (build_where_clause districts start_date end_date) = (c, w1)"
    by (cases "get_total_count int_str w (build_where_clause districts start_date end_date)")
  from g assms have c: "c = 0" by simp
  from g snd_get_total_count [of int_str w "build_where_clause districts start_date end_date"]
  have w1: "w1 = w\<lparr>sent := sent w @ [count_request (build_where_clause districts start_date end_date)]\<rparr>"
    by simp
  show ?thesis by (simp add: query_with_pagination_def Let_def g c w1)
qed

theorem zero_count_no_page_requests_witness:
  "fst (get_total_count decimal (scripted [ok_response (count_body ''0'')]) (build_where_clause DISTRICTS START_DATE END_DATE)) = 0 \<and>
   query_with_pagination decimal (scripted [ok_response (count_body ''0'')]) DISTRICTS START_DATE END_DATE 1000 =
     Some ([], (scripted [ok_response (count_body ''0'')])\<lparr>sent := [count_request (build_where_clause DISTRICTS START_DATE END_DATE)]\<rparr>)"
proof -
  have h: "fst (get_total_count decimal (scripted [ok_response (count_body ''0'')]) (build_where_clause DISTRICTS START_DATE END_DATE)) = 0"
    by (simp add: get_total_count_def session_get_def scripted_def ok_response_def http_error_def count_body_def
          count_of_body_def and_then_def raise_for_status_def json_def decimal_def less_eq_char_def)
  from zero_count_no_page_requests [OF h, of 1000] h show ?thesis by (simp add: scripted_def)
qed

text \<open>
  Claim C1 as stated fails: the loop is bounded by the offset, not by the number of
  records accumulated. The count says 4 and the page size is 2; the first page brings two
  records, the second only one. After two pages the offset is 4, so the loop ends with 3
  records, fewer than the total, although no page was empty and no request failed. The
  log shows that no third page was requested.
\<close>

theorem pagination_stops_below_total:
  "query_with_pagination decimal
     (scripted [ok_response (count_body ''4''), ok_response (JArr [crime ''1'', crime ''2'']),
                ok_response (JArr [crime ''3''])])
     [''645''] ''2025-07-26'' ''2025-08-25'' 2
   = Some ([crime ''1'', crime ''2'', crime ''3''],
       (scripted [ok_response (count_body ''4''), ok_response (JArr [crime ''1'', crime ''2'']),
                  ok_response (JArr [crime ''3''])])
        \<lparr>sent := [count_request (build_where_clause [''645''] ''2025-07-26'' ''2025-08-25''),
                  page_request (build_where_clause [''645''] ''2025-07-26'' ''2025-08-25'') 2 0,
                  page_request (build_where_clause [''645''] ''2025-07-26'' ''2025-08-25'') 2 2]\<rparr>)
   \<and> fst (get_total_count decimal
            (scripted [ok_response (count_body ''4''), ok_response (JArr [crime ''1'', crime ''2'']),
                       ok_response (JArr [crime ''3''])])
            (build_where_clause [''645''] ''2025-07-26'' ''2025-08-25'')) = 4
   \<and> int (length [crime ''1'', crime ''2'', crime ''3'']) < 4
   \<and> page_of (ok_response (JArr [crime ''1'', crime ''2''])) = Records [crime ''1'', crime ''2'']
   \<and> page_of (ok_response (JArr [crime ''3''])) = Records [crime ''3'']"
  by (simp add: query_with_pagination_def get_total_count_def session_get_def scripted_def
      ok_response_def http_error_def count_body_def count_of_body_def and_then_def raise_for_status_def json_def
      Let_def decimal_def less_eq_char_def pagination_while.simps pagination_body_def page_of_def)

text \<open>
  Claim C1, amended. With a positive page size and a total \<open>> 0\<close>,
  \<^verbatim>\<open>query_with_pagination\<close> returns, and for some \<open>n\<close> and \<open>k\<close>: after the count request it
  has issued exactly \<open>n\<close> page requests, of size \<^verbatim>\<open>limit_per_page\<close> and at the offsets
  \<open>0, limit_per_page, 2 * limit_per_page, \<dots>\<close>, each of them below the total; the first
  \<open>k\<close> pages had records, and their records, concatenated in request order, are what is
  returned; and the loop stopped either because the next offset \<open>n * limit_per_page\<close> had
  reached the total (then \<open>n = k\<close>), or because page \<open>k\<close> failed or was empty (then
  \<open>n = k + 1\<close>). In each case the records accumulated so far are returned.
\<close>

theorem pagination_requests_and_stop:
  assumes "0 < limit_per_page"
    and "get_total_count int_str w (build_where_clause districts start_date end_date) = (total_count, w1)"
    and "0 < total_count"
  shows "\<exists>n k.
           query_with_pagination int_str w districts start_date end_date limit_per_page
             = Some (concat (map (\<lambda>i. page_records (nth_page w1 (build_where_clause districts start_date end_date) limit_per_page 0 i)) [0..<k]),
                     w1\<lparr>sent := sent w1 @ map (\<lambda>i. page_request (build_where_clause districts start_date end_date) limit_per_page (int i * limit_per_page)) [0..<n]\<rparr>)
           \<and> (\<forall>i<k. \<exists>items. nth_page w1 (build_where_clause districts start_date end_date) limit_per_page 0 i = Records items)
           \<and> (\<forall>i<n. int i * limit_per_page < total_count)
           \<and> (n = k \<and> total_count \<le> int n * limit_per_page
              \<or> n = Suc k \<and> (nth_page w1 (build_where_clause districts start_date end_date) limit_per_page 0 k = Failed
                             \<or> nth_page w1 (build_where_clause districts start_date end_date) limit_per_page 0 k = Empty))"
proof -
  define wc where "wc = build_where_clause districts start_date end_date"
  define s0 where "s0 = \<lparr>ls_world = w1, ls_offset = 0, ls_records = []\<rparr>"
  from pagination_while_run [OF assms(1), of wc total_count s0]
  obtain n k where r: "pagination_while wc total_count limit_per_page s0 = Some (loop_result wc limit_per_page s0 n k)"
    and sh: "run_shape wc total_count limit_per_page (ls_world s0) (ls_offset s0) n k" by blast
  from assms(2,3) r have "query_with_pagination int_str w districts start_date end_date limit_per_page
             = Some (concat (map (\<lambda>i. page_records (nth_page w1 wc limit_per_page 0 i)) [0..<k]),
                     w1\<lparr>sent := sent w1 @ map (\<lambda>i. page_request wc limit_per_page (int i * limit_per_page)) [0..<n]\<rparr>)"
    by (simp add: query_with_pagination_def Let_def wc_def[symmetric] s0_def[symmetric])
       (simp add: loop_result_def s0_def)
  with sh show ?thesis
    unfolding run_shape_def s0_def wc_def by (intro exI[of _ n] exI[of _ k]) simp
qed

theorem pagination_requests_and_stop_witness:
  "get_total_count decimal (scripted [ok_response (count_body ''3''), ok_response (JArr [crime ''1'', crime ''2'']), None])
      (build_where_clause DISTRICTS START_DATE END_DATE)
     = (3, (scripted [ok_response (count_body ''3''), ok_response (JArr [crime ''1'', crime ''2'']), None])
             \<lparr>sent := [count_request (build_where_clause DISTRICTS START_DATE END_DATE)]\<rparr>)
   \<and> (\<exists>n k. query_with_pagination decimal
              (scripted [ok_response (count_body ''3''), ok_response (JArr [crime ''1'', crime ''2'']), None])
              DISTRICTS START_DATE END_DATE 2
            = Some (concat (map (\<lambda>i. page_records (nth_page
                       ((scripted [ok_response (count_body ''3''), ok_response (JArr [crime ''1'', crime ''2'']), None])
                          \<lparr>sent := [count_request (build_where_clause DISTRICTS START_DATE END_DATE)]\<rparr>)
                       (build_where_clause DISTRICTS START_DATE END_DATE) 2 0 i)) [0..<k]),
                    (scripted [ok_response (count_body ''3''), ok_response (JArr [crime ''1'', crime ''2'']), None])
                     \<lparr>sent := count_request (build_where_clause DISTRICTS START_DATE END_DATE)
                         # map (\<lambda>i. page_request (build_where_clause DISTRICTS START_DATE END_DATE) 2 (int i * 2)) [0..<n]\<rparr>))"
proof -
  have h: "get_total_count decimal (scripted [ok_response (count_body ''3''), ok_response (JArr [crime ''1'', crime ''2'']), None])
      (build_where_clause DISTRICTS START_DATE END_DATE)
     = (3, (scripted [ok_response (count_body ''3''), ok_response (JArr [crime ''1'', crime ''2'']), None])
             \<lparr>sent := [count_request (build_where_clause DISTRICTS START_DATE END_DATE)]\<rparr>)"
    by (simp add: get_total_count_def session_get_def scripted_def ok_response_def http_error_def count_body_def
          count_of_body_def and_then_def raise_for_status_def json_def decimal_def less_eq_char_def)
  from pagination_requests_and_stop [OF _ h, of 2] h show ?thesis by auto
qed

text \<open>The bound on the length, and the growth of the accumulated list.\<close>

lemma length_concat_upt_le:
  "(\<And>i. i < k \<Longrightarrow> length (f i) \<le> m) \<Longrightarrow> length (concat (map f [0..<k])) \<le> k * m"
proof (induction k)
  case 0
  then show ?case by simp
next
  case (Suc k)
  then have "length (concat (map f [0..<k])) \<le> k * m" by simp
  moreover from Suc.prems have "length (f k) \<le> m" by simp
  ultimately show ?case by simp
qed

lemma pagination_body_grows:
  "pagination_body wc lim s = Again s' \<Longrightarrow> length (ls_records s) \<le> length (ls_records s')"
  by (auto simp: pagination_body_page split: page.splits)

lemma pagination_body_break:
  "pagination_body wc lim s = Break s' \<Longrightarrow> ls_records s' = ls_records s"
  by (auto simp: pagination_body_page split: page.splits)

text \<open>
  Claim C3. When every page has at most \<^verbatim>\<open>limit_per_page\<close> records (the page size
  being positive and the count a count, \<open>\<ge> 0\<close>), \<^verbatim>\<open>query_with_pagination\<close> returns a
  list of length at most \<open>total_count + limit_per_page\<close>; and a run of the loop body
  that goes round again leaves \<^verbatim>\<open>all_records\<close> at least as long as it was, one that
  leaves the loop leaves it as it was.
\<close>

theorem pagination_length_bound:
  assumes lim: "0 < limit_per_page"
    and cnt: "get_total_count int_str w (build_where_clause districts start_date end_date) = (total_count, w1)"
    and nonneg: "0 \<le> total_count"
    and pages: "\<forall>i items. nth_page w1 (build_where_clause districts start_date end_date) limit_per_page 0 i = Records items
                  \<longrightarrow> int (length items) \<le> limit_per_page"
  shows "\<exists>records w'.
           query_with_pagination int_str w districts start_date end_date limit_per_page = Some (records, w')
           \<and> int (length records) \<le> total_count + limit_per_page
           \<and> (\<forall>s s'. pagination_body (build_where_clause districts start_date end_date) limit_per_page s = Again s'
                 \<longrightarrow> length (ls_records s) \<le> length (ls_records s'))
           \<and> (\<forall>s s'. pagination_body (build_where_clause districts start_date end_date) limit_per_page s = Break s'
                 \<longrightarrow> ls_records s' = ls_records s)"
proof -
  define wc where "wc = build_where_clause districts start_date end_date"
  have mono: "\<forall>s s'. pagination_body wc limit_per_page s = Again s'
                 \<longrightarrow> length (ls_records s) \<le> length (ls_records s')"
    using pagination_body_grows by blast
  have brk: "\<forall>s s'. pagination_body wc limit_per_page s = Break s' \<longrightarrow> ls_records s' = ls_records s"
    using pagination_body_break by blast
  have "\<exists>records w'.
           query_with_pagination int_str w districts start_date end_date limit_per_page = Some (records, w')
           \<and> int (length records) \<le> total_count + limit_per_page"
  proof (cases "total_count = 0")
    case True
    with cnt lim show ?thesis by (simp add: query_with_pagination_def Let_def)
  next
    case False
    define s0 where "s0 = \<lparr>ls_world = w1, ls_offset = 0, ls_records = []\<rparr>"
    from pagination_while_run [OF lim, of wc total_count s0]
    obtain n k where r: "pagination_while wc total_count limit_per_page s0 = Some (loop_result wc limit_per_page s0 n k)"
      and sh: "run_shape wc total_count limit_per_page w1 0 n k" by (auto simp: s0_def)
    define records where "records = concat (map (\<lambda>i. page_records (nth_page w1 wc limit_per_page 0 i)) [0..<k])"
    from cnt False r have q: "query_with_pagination int_str w districts start_date end_date limit_per_page
             = Some (records, ls_world (loop_result wc limit_per_page s0 n k))"
      by (simp add: query_with_pagination_def Let_def wc_def[symmetric] s0_def[symmetric])
         (simp add: loop_result_def s0_def records_def)
    have each: "length (page_records (nth_page w1 wc limit_per_page 0 i)) \<le> nat limit_per_page" for i
    proof (cases "nth_page w1 wc limit_per_page 0 i")
      case (Records items)
      with pages have "int (length items) \<le> limit_per_page" by (simp add: wc_def)
      with Records show ?thesis by simp
    qed simp_all
    have "length records \<le> k * nat limit_per_page"
      unfolding records_def by (rule length_concat_upt_le) (rule each)
    then have "int (length records) \<le> int (k * nat limit_per_page)"
      by (simp only: of_nat_le_iff)
    also from lim have "\<dots> = int k * limit_per_page" by simp
    finally have le_k: "int (length records) \<le> int k * limit_per_page" .
    have "int k * limit_per_page \<le> total_count + limit_per_page"
    proof (cases n)
      case 0
      with sh have "k = 0" by (auto simp: run_shape_def)
      with nonneg lim show ?thesis by simp
    next
      case (Suc m)
      with sh have "int m * limit_per_page < total_count" by (auto simp: run_shape_def)
      moreover from sh Suc have "k \<le> Suc m" by (auto simp: run_shape_def)
      then have "int k * limit_per_page \<le> int (Suc m) * limit_per_page"
        using lim by (intro mult_right_mono) simp_all
      ultimately show ?thesis by (simp add: algebra_simps)
    qed
    with le_k q show ?thesis by auto
  qed
  with mono brk show ?thesis unfolding wc_def by blast
qed

theorem pagination_length_bound_witness:
  "\<exists>records w'.
     query_with_pagination decimal
       (scripted [ok_response (count_body ''3''), ok_response (JArr [crime ''1'', crime ''2'']),
                  ok_response (JArr [crime ''3''])])
       DISTRICTS START_DATE END_DATE 2 = Some (records, w')
     \<and> int (length records) \<le> 3 + 2"
proof -
  define W where "W = scripted [ok_response (count_body ''3''), ok_response (JArr [crime ''1'', crime ''2'']),
                  ok_response (JArr [crime ''3''])]"
  have h: "get_total_count decimal W (build_where_clause DISTRICTS START_DATE END_DATE)
     = (3, W\<lparr>sent := [count_request (build_where_clause DISTRICTS START_DATE END_DATE)]\<rparr>)"
    by (simp add: W_def get_total_count_def session_get_def scripted_def ok_response_def http_error_def count_body_def
          count_of_body_def and_then_def raise_for_status_def json_def decimal_def less_eq_char_def)
  have p: "\<forall>i items. nth_page (W\<lparr>sent := [count_request (build_where_clause DISTRICTS START_DATE END_DATE)]\<rparr>)
              (build_where_clause DISTRICTS START_DATE END_DATE) 2 0 i = Records items
                  \<longrightarrow> int (length items) \<le> 2"
    by (auto simp: W_def nth_page_def page_of_def scripted_def ok_response_def http_error_def
          nth_Cons split: nat.splits if_splits)
  from pagination_length_bound [OF _ h _ p] show ?thesis unfolding W_def by auto
qed

text \<open>
  Claim C6. Five pages are expected (\<open>4 * limit_per_page < total_count \<le>
  5 * limit_per_page\<close>); the first two page requests are answered, with a status
  that is no error, by non-empty lists \<open>page1\<close> and \<open>page2\<close>, the third fails (the request raises, the status is an error, or
  the body is not JSON). Then \<^verbatim>\<open>query_with_pagination\<close> returns \<open>page1 @ page2\<close>, a value
  and not an exception, and the log holds three page requests: the failed one was issued
  once, and nothing after it.
\<close>

theorem pagination_third_page_fails:
  assumes lim: "0 < limit_per_page"
    and cnt: "get_total_count int_str w (build_where_clause districts start_date end_date) = (total_count, w1)"
    and five: "4 * limit_per_page < total_count" "total_count \<le> 5 * limit_per_page"
    and p1: "replies w1 (length (sent w1)) (page_request (build_where_clause districts start_date end_date) limit_per_page 0)
               = Some r1" "\<not> http_error r1" "json_body r1 = Some (JArr page1)" "page1 \<noteq> []"
    and p2: "replies w1 (length (sent w1) + 1) (page_request (build_where_clause districts start_date end_date) limit_per_page limit_per_page)
               = Some r2" "\<not> http_error r2" "json_body r2 = Some (JArr page2)" "page2 \<noteq> []"
    and p3: "case replies w1 (length (sent w1) + 2) (page_request (build_where_clause districts start_date end_date) limit_per_page (2 * limit_per_page)) of
               None \<Rightarrow> True
             | Some r \<Rightarrow> http_error r \<or> json_body r = None"
  shows "query_with_pagination int_str w districts start_date end_date limit_per_page
           = Some (page1 @ page2,
                   w1\<lparr>sent := sent w1 @
                      [page_request (build_where_clause districts start_date end_date) limit_per_page 0,
                       page_request (build_where_clause districts start_date end_date) limit_per_page limit_per_page,
                       page_request (build_where_clause districts start_date end_date) limit_per_page (2 * limit_per_page)]\<rparr>)"
proof -
  define wc where "wc = build_where_clause districts start_date end_date"
  define rq0 where "rq0 = page_request wc limit_per_page 0"
  define rq1 where "rq1 = page_request wc limit_per_page limit_per_page"
  define rq2 where "rq2 = page_request wc limit_per_page (2 * limit_per_page)"
  define s0 where "s0 = \<lparr>ls_world = w1, ls_offset = 0, ls_records = []\<rparr>"
  define s1 where "s1 = \<lparr>ls_world = w1\<lparr>sent := sent w1 @ [rq0]\<rparr>, ls_offset = limit_per_page, ls_records = page1\<rparr>"
  define s2 where "s2 = \<lparr>ls_world = w1\<lparr>sent := sent w1 @ [rq0, rq1]\<rparr>, ls_offset = 2 * limit_per_page, ls_records = page1 @ page2\<rparr>"
  define s3 where "s3 = \<lparr>ls_world = w1\<lparr>sent := sent w1 @ [rq0, rq1, rq2]\<rparr>, ls_offset = 2 * limit_per_page, ls_records = page1 @ page2\<rparr>"
  have b0: "pagination_body wc limit_per_page s0 = Again s1"
    using p1 by (simp add: pagination_body_def session_get_def and_then_def raise_for_status_def
        json_def s0_def s1_def rq0_def wc_def)
  have b1: "pagination_body wc limit_per_page s1 = Again s2"
    using p2 by (simp add: pagination_body_def session_get_def and_then_def raise_for_status_def
        json_def s1_def s2_def rq1_def wc_def)
  have b2: "pagination_body wc limit_per_page s2 = Break s3"
    using p3 by (auto simp: pagination_body_def session_get_def and_then_def raise_for_status_def
        json_def s2_def s3_def rq2_def wc_def split: option.splits)
  from lim five have o0: "ls_offset s0 < total_count" and o1: "ls_offset s1 < total_count"
    and o2: "ls_offset s2 < total_count"
    by (simp_all add: s0_def s1_def s2_def)
  have "pagination_while wc total_count limit_per_page s2 = Some s3"
    by (subst pagination_while.simps) (simp add: o2 b2)
  then have "pagination_while wc total_count limit_per_page s1 = Some s3"
    by (subst pagination_while.simps) (simp add: o1 b1)
  then have "pagination_while wc total_count limit_per_page s0 = Some s3"
    by (subst pagination_while.simps) (simp add: o0 b0)
  moreover from lim five have "total_count \<noteq> 0" by simp
  ultimately show ?thesis using cnt
    by (simp add: query_with_pagination_def Let_def wc_def[symmetric] s0_def[symmetric])
       (simp add: s3_def rq0_def rq1_def rq2_def)
qed

theorem pagination_third_page_fails_witness:
  "query_with_pagination decimal
     (scripted [ok_response (count_body ''5''), ok_response (JArr [crime ''1'']),
                ok_response (JArr [crime ''2'']), None])
     DISTRICTS START_DATE END_DATE 1
   = Some ([crime ''1''] @ [crime ''2''],
       (scripted [ok_response (count_body ''5''), ok_response (JArr [crime ''1'']),
                ok_response (JArr [crime ''2'']), None])
        \<lparr>sent := [count_request (build_where_clause DISTRICTS START_DATE END_DATE),
                  page_request (build_where_clause DISTRICTS START_DATE END_DATE) 1 0,
                  page_request (build_where_clause DISTRICTS START_DATE END_DATE) 1 1,
                  page_request (build_where_clause DISTRICTS START_DATE END_DATE) 1 2]\<rparr>)"
proof -
  define W where "W = scripted [ok_response (count_body ''5''), ok_response (JArr [crime ''1'']),
                ok_response (JArr [crime ''2'']), None]"
  have h: "get_total_count decimal W (build_where_clause DISTRICTS START_DATE END_DATE)
     = (5, W\<lparr>sent := [count_request (build_where_clause DISTRICTS START_DATE END_DATE)]\<rparr>)"
    by (simp add: W_def get_total_count_def session_get_def scripted_def ok_response_def http_error_def count_body_def
          count_of_body_def and_then_def raise_for_status_def json_def decimal_def less_eq_char_def)
  from pagination_third_page_fails
         [where limit_per_page = 1
            and ?r1.0 = "\<lparr>status_code = 200, json_body = Some (JArr [crime ''1''])\<rparr>"
            and ?page1.0 = "[crime ''1'']"
            and ?r2.0 = "\<lparr>status_code = 200, json_body = Some (JArr [crime ''2''])\<rparr>"
            and ?page2.0 = "[crime ''2'']", OF _ h]
  show ?thesis
    unfolding W_def by (simp add: scripted_def ok_response_def http_error_def)
qed

section \<open>main\<close>

lemma query_with_high_limit_sized:
  "\<exists>n. py_len (fst (query_with_high_limit w ds sd ed lim)) = Inr n"
  by (auto simp: query_with_high_limit_def session_get_def and_then_def raise_for_status_def
        json_def Let_def split: option.splits sum.splits)

lemma truthy_sized: "py_len v = Inr n \<Longrightarrow> truthy v \<longleftrightarrow> n \<noteq> 0"
  by (cases v) auto

text \<open>
  Claim C2. Let \<open>data\<close> be what \<^verbatim>\<open>query_with_high_limit\<close> returned with limit 50000. If
  it is empty or its length is exactly 50000, \<^verbatim>\<open>main\<close> goes on with the result of
  \<^verbatim>\<open>query_with_pagination\<close> (page size 1000) and the bulk result is dropped; otherwise
  it goes on with \<open>data\<close>, unchanged.
\<close>

theorem main_bulk_or_paginated:
  assumes "query_with_high_limit w DISTRICTS START_DATE END_DATE 50000 = (data, w1)"
  shows "main_data int_str w =
           (if py_len data = Inr 0 \<or> py_len data = Inr 50000 then
              map_option (\<lambda>(records, w2). Inr (JArr records, w2))
                (query_with_pagination int_str w1 DISTRICTS START_DATE END_DATE 1000)
            else Some (Inr (data, w1)))"
proof -
  from query_with_high_limit_sized [of w DISTRICTS START_DATE END_DATE 50000] assms
  obtain n where n: "py_len data = Inr n" by auto
  with truthy_sized [OF n] assms show ?thesis
    by (simp add: main_data_def Let_def)
qed

theorem main_bulk_or_paginated_witness:
  "main_data decimal (scripted [ok_response (JArr [crime ''1'', crime ''2''])])
     = Some (Inr (JArr [crime ''1'', crime ''2''],
        (scripted [ok_response (JArr [crime ''1'', crime ''2''])])
          \<lparr>sent := [bulk_request (build_where_clause DISTRICTS START_DATE END_DATE) 50000]\<rparr>))
   \<and> main_data decimal
       (scripted [ok_response (JArr []), ok_response (count_body ''1''), ok_response (JArr [crime ''1''])])
     = Some (Inr (JArr [crime ''1''],
        (scripted [ok_response (JArr []), ok_response (count_body ''1''), ok_response (JArr [crime ''1''])])
          \<lparr>sent := [bulk_request (build_where_clause DISTRICTS START_DATE END_DATE) 50000,
                   count_request (build_where_clause DISTRICTS START_DATE END_DATE),
                   page_request (build_where_clause DISTRICTS START_DATE END_DATE) 1000 0]\<rparr>))"
proof -
  have h1: "query_with_high_limit (scripted [ok_response (JArr [crime ''1'', crime ''2''])])
              DISTRICTS START_DATE END_DATE 50000
     = (JArr [crime ''1'', crime ''2''],
        (scripted [ok_response (JArr [crime ''1'', crime ''2''])])
          \<lparr>sent := [bulk_request (build_where_clause DISTRICTS START_DATE END_DATE) 50000]\<rparr>)"
    by (simp add: query_with_high_limit_def session_get_def scripted_def ok_response_def
          http_error_def and_then_def raise_for_status_def json_def Let_def)
  have h2: "query_with_high_limit
              (scripted [ok_response (JArr []), ok_response (count_body ''1''), ok_response (JArr [crime ''1''])])
              DISTRICTS START_DATE END_DATE 50000
     = (JArr [],
        (scripted [ok_response (JArr []), ok_response (count_body ''1''), ok_response (JArr [crime ''1''])])
          \<lparr>sent := [bulk_request (build_where_clause DISTRICTS START_DATE END_DATE) 50000]\<rparr>)"
    by (simp add: query_with_high_limit_def session_get_def scripted_def ok_response_def
          http_error_def and_then_def raise_for_status_def json_def Let_def)
  from main_bulk_or_paginated [OF h1, of decimal] main_bulk_or_paginated [OF h2, of decimal]
  show ?thesis
    by (simp add: query_with_pagination_def get_total_count_def session_get_def scripted_def
      ok_response_def http_error_def count_body_def count_of_body_def and_then_def raise_for_status_def json_def
      Let_def decimal_def less_eq_char_def pagination_while.simps pagination_body_def)
qed

section \<open>build_where_clause\<close>

text \<open>
  Claim C7 as stated fails: a district code can occur in the expression more than once.
  With the districts 645 and 1645 the code 645 occurs at two positions of
  \<^verbatim>\<open>rpt_dist_no IN ('645', '1645') AND ...\<close>, once as the first code and once inside the
  second.
\<close>

theorem build_where_clause_code_occurs_twice:
  "occurrences ''645'' (build_where_clause [''645'', ''1645''] ''2025-07-26'' ''2025-08-25'') = 2"
  by code_simp

lemma split_on_notin: "c \<notin> set a \<Longrightarrow> split_on c (a @ c # rest) = a # split_on c rest"
  by (induction a) (auto split: list.splits)

lemma split_on_none: "c \<notin> set a \<Longrightarrow> split_on c a = [a]"
  by (induction a) (auto split: list.splits)

lemma literals_join:
  assumes "sep = apostrophe # '', '' @ [apostrophe]"
    and "ds \<noteq> []" and "\<forall>d\<in>set ds. apostrophe \<notin> set d"
  shows "odd_items (p # split_on apostrophe (str_join sep ds @ apostrophe # rest))
           = ds @ odd_items (split_on apostrophe rest)"
  using assms
proof (induction sep ds arbitrary: p rule: str_join.induct)
  case (1 sep)
  then show ?case by simp
next
  case (2 sep x)
  then show ?case by (simp add: split_on_notin)
next
  case (3 sep x y ys)
  have c: "apostrophe \<notin> set '', ''" by simp
  from 3 have x: "apostrophe \<notin> set x" by simp
  have "str_join sep (x # y # ys) @ apostrophe # rest
          = x @ apostrophe # ('', '' @ apostrophe # (str_join sep (y # ys) @ apostrophe # rest))"
    using "3.prems"(1) by simp
  then have "split_on apostrophe (str_join sep (x # y # ys) @ apostrophe # rest)
          = x # '', '' # split_on apostrophe (str_join sep (y # ys) @ apostrophe # rest)"
    using split_on_notin [OF x] split_on_notin [OF c] by metis
  moreover from 3 have "odd_items ('', '' # split_on apostrophe (str_join sep (y # ys) @ apostrophe # rest))
          = (y # ys) @ odd_items (split_on apostrophe rest)"
    by simp
  ultimately show ?case by simp
qed

lemma count_list_distinct: "distinct xs \<Longrightarrow> x \<in> set xs \<Longrightarrow> count_list xs x = 1"
  by (induction xs) (auto simp: count_list_0_iff)

text \<open>
  Claim C7, amended. For a non-empty list of distinct district codes and two dates, none
  of them containing an apostrophe (an ISO-8601 date has none), the single-quoted
  literals of the expression are the district codes, in the order given, followed by the
  start date and the end date: every district code is exactly one literal of the
  \<^verbatim>\<open>IN\<close> list, and both boundary dates are there.
\<close>

theorem build_where_clause_quoted_literals:
  assumes "districts \<noteq> []" and "distinct districts"
    and "\<forall>d\<in>set districts. apostrophe \<notin> set d"
    and "apostrophe \<notin> set start_date" and "apostrophe \<notin> set end_date"
  shows "quoted_literals (build_where_clause districts start_date end_date)
           = districts @ [start_date, end_date]
         \<and> (\<forall>d\<in>set districts.
               count_list (take (length districts)
                 (quoted_literals (build_where_clause districts start_date end_date))) d = 1)"
proof -
  define rest where "rest = '') AND date_occ >= '' @ apostrophe # start_date @ apostrophe
           # '' AND date_occ <= '' @ apostrophe # end_date @ [apostrophe]"
  define sep where "sep = apostrophe # '', '' @ [apostrophe]"
  have c1: "apostrophe \<notin> set ''rpt_dist_no IN (''" by simp
  have c2: "apostrophe \<notin> set '') AND date_occ >= ''" by simp
  have c3: "apostrophe \<notin> set '' AND date_occ <= ''" by simp
  have "split_on apostrophe rest
          = ['') AND date_occ >= '', start_date, '' AND date_occ <= '', end_date, []]"
    unfolding rest_def
    using split_on_notin [OF c2] split_on_notin [OF assms(4)] split_on_notin [OF c3]
      split_on_notin [OF assms(5), of "[]"]
    by (metis split_on.simps(1))
  then have r: "odd_items (split_on apostrophe rest) = [start_date, end_date]" by simp
  have b: "build_where_clause districts start_date end_date
             = ''rpt_dist_no IN ('' @ apostrophe # (str_join sep districts @ apostrophe # rest)"
    by (simp add: build_where_clause_def rest_def sep_def)
  have "quoted_literals (build_where_clause districts start_date end_date)
          = odd_items (''rpt_dist_no IN ('' # split_on apostrophe (str_join sep districts @ apostrophe # rest))"
    unfolding quoted_literals_def b using split_on_notin [OF c1] by simp
  also have "\<dots> = districts @ odd_items (split_on apostrophe rest)"
    by (rule literals_join [OF sep_def assms(1) assms(3)])
  finally have q: "quoted_literals (build_where_clause districts start_date end_date)
           = districts @ [start_date, end_date]" using r by simp
  with assms(2) show ?thesis by (simp add: count_list_distinct)
qed

theorem build_where_clause_quoted_literals_witness:
  "quoted_literals (build_where_clause DISTRICTS START_DATE END_DATE)
     = DISTRICTS @ [START_DATE, END_DATE]
   \<and> count_list (take (length DISTRICTS)
         (quoted_literals (build_where_clause DISTRICTS START_DATE END_DATE))) ''645'' = 1
   \<and> count_list (take (length DISTRICTS)
         (quoted_literals (build_where_clause DISTRICTS START_DATE END_DATE))) ''676'' = 1"
proof -
  have d: "DISTRICTS \<noteq> []" "distinct DISTRICTS" "\<forall>d\<in>set DISTRICTS. apostrophe \<notin> set d"
    "apostrophe \<notin> set START_DATE" "apostrophe \<notin> set END_DATE"
    by (simp_all add: DISTRICTS_def START_DATE_def END_DATE_def)
  have m: "''645'' \<in> set DISTRICTS" "''676'' \<in> set DISTRICTS"
    by (simp_all add: DISTRICTS_def)
  from build_where_clause_quoted_literals [OF d] m show ?thesis by blast
qed

section \<open>save_to_csv\<close>

text \<open>
  Claim C9. For the empty record list \<^verbatim>\<open>save_to_csv\<close> returns \<^verbatim>\<open>False\<close> and leaves the
  file system as it was: nothing is opened or written, no file is created, and the
  destination path is in the state it was in.
\<close>

theorem save_to_csv_empty: "save_to_csv str fs (JArr []) filename = Inr (False, fs)"
  by (simp add: save_to_csv_def)

theorem save_to_csv_empty_witness:
  "save_to_csv (\<lambda>v. []) filesystem0 (JArr []) ''out.csv'' = Inr (False, filesystem0)"
  using save_to_csv_empty [of "\<lambda>v. []" filesystem0 "''out.csv''"] by simp

lemma sorted_ab: "sorted_list_of_set {''a'', ''b''} = [''a'', ''b'']"
  by code_simp

text \<open>
  Claim C8. For the records \<^verbatim>\<open>[{"a":"1","b":"2"}, {"a":"3"}]\<close> and a path that can be
  opened for writing, \<^verbatim>\<open>save_to_csv\<close> returns \<^verbatim>\<open>True\<close> and the file holds the header
  row \<^verbatim>\<open>a,b\<close> (the sorted union of the keys) and the rows \<^verbatim>\<open>1,2\<close> and \<^verbatim>\<open>3,\<close>, each
  ended by the line terminator: the record without \<^verbatim>\<open>b\<close> has an empty field there.
\<close>

theorem save_to_csv_sparse_example:
  "writable fs path \<Longrightarrow>
   save_to_csv str fs (JArr [JObj [(''a'', JStr ''1''), (''b'', JStr ''2'')], JObj [(''a'', JStr ''3'')]]) path
     = Inr (True, fs\<lparr>files := (files fs)(path \<mapsto>
          ''a,b'' @ lineterminator @ ''1,2'' @ lineterminator @ ''3,'' @ lineterminator)\<rparr>)"
  by (simp add: save_to_csv_def and_then_def sorted_ab insert_commute writeheader_def writerow_def csv_row_def csv_field_def dict_get_def)

theorem save_to_csv_sparse_example_witness:
  "writable filesystem0 ''out.csv'' \<and>
   save_to_csv (\<lambda>v. []) filesystem0 (JArr [JObj [(''a'', JStr ''1''), (''b'', JStr ''2'')], JObj [(''a'', JStr ''3'')]]) ''out.csv''
     = Inr (True, filesystem0\<lparr>files := (files filesystem0)(''out.csv'' \<mapsto>
          ''a,b'' @ lineterminator @ ''1,2'' @ lineterminator @ ''3,'' @ lineterminator)\<rparr>)"
  using save_to_csv_sparse_example [of filesystem0 "''out.csv''" "\<lambda>v. []"] by (simp add: filesystem0_def)

lemma all_keys_of_union:
  "\<forall>r\<in>set rs. \<exists>kvs. r = JObj kvs \<Longrightarrow> all_keys_of rs acc = Inr (acc \<union> (\<Union>r\<in>set rs. key_set r))"
  by (induction rs arbitrary: acc) (auto simp: and_then_def)

lemma finite_key_set: "finite (key_set r)"
  by (cases r) auto

lemma dict_to_list_subset:
  "fst ` set kvs \<subseteq> set fieldnames \<Longrightarrow>
   dict_to_list fieldnames (JObj kvs) = Inr (map (\<lambda>key. dict_get kvs key (JStr [])) fieldnames)"
  by (auto simp: filter_empty_conv)

lemma write_rows_all:
  "\<forall>r\<in>set rs. \<exists>kvs. r = JObj kvs \<and> fst ` set kvs \<subseteq> set fieldnames \<Longrightarrow>
   \<exists>written'. write_rows str fieldnames rs written = (True, written')"
proof (induction rs arbitrary: written)
  case Nil
  then show ?case by simp
next
  case (Cons r rs)
  then obtain kvs where r: "r = JObj kvs" "fst ` set kvs \<subseteq> set fieldnames" by auto
  from Cons have "\<exists>written'. write_rows str fieldnames rs (written @ csv_row (map (csv_text str) (map (\<lambda>key. dict_get kvs key (JStr [])) fieldnames))) = (True, written')"
    by simp
  with r show ?case by (simp add: writerow_def and_then_def dict_to_list_subset del: dict_to_list.simps)
qed

text \<open>
  Claim C10. For a non-empty list of records (dicts), the field names given to the
  writer are the sorted union of the keys of all records. So the key set of every record
  is within the field names, \<^verbatim>\<open>_dict_to_list\<close> never raises \<^verbatim>\<open>ValueError\<close> for a record,
  every \<^verbatim>\<open>writerow\<close> succeeds, and, when the file can be opened, \<^verbatim>\<open>save_to_csv\<close>
  returns \<^verbatim>\<open>True\<close>.
\<close>

theorem save_to_csv_no_extra_key:
  assumes ne: "records \<noteq> []" and dicts: "\<forall>r\<in>set records. \<exists>kvs. r = JObj kvs"
  shows "let fieldnames = sorted_list_of_set (\<Union>r\<in>set records. key_set r)
         in all_keys_of records {} = Inr (set fieldnames)
            \<and> sorted fieldnames \<and> distinct fieldnames
            \<and> (\<forall>r\<in>set records. key_set r \<subseteq> set fieldnames
                  \<and> dict_to_list fieldnames r \<noteq> Inl ValueError
                  \<and> (\<exists>line. writerow str fieldnames r = Inr line))
            \<and> (writable fs filename \<longrightarrow>
                  (\<exists>text. save_to_csv str fs (JArr records) filename
                     = Inr (True, fs\<lparr>files := (files fs)(filename \<mapsto> text)\<rparr>)))"
proof -
  define all_keys where "all_keys = (\<Union>r\<in>set records. key_set r)"
  define fieldnames where "fieldnames = sorted_list_of_set all_keys"
  have fin: "finite all_keys" unfolding all_keys_def by (simp add: finite_key_set)
  then have sf: "set fieldnames = all_keys" and so: "sorted fieldnames" and di: "distinct fieldnames"
    by (simp_all add: fieldnames_def)
  from all_keys_of_union [OF dicts, of "{}"] have ak: "all_keys_of records {} = Inr all_keys"
    by (simp add: all_keys_def)
  have sub: "key_set r \<subseteq> set fieldnames" if "r \<in> set records" for r
    using that by (auto simp: sf all_keys_def)
  have rows: "\<forall>r\<in>set records. \<exists>kvs. r = JObj kvs \<and> fst ` set kvs \<subseteq> set fieldnames"
  proof
    fix r assume r: "r \<in> set records"
    with dicts obtain kvs where "r = JObj kvs" by auto
    with sub [OF r] show "\<exists>kvs. r = JObj kvs \<and> fst ` set kvs \<subseteq> set fieldnames" by simp
  qed
  have each: "dict_to_list fieldnames r \<noteq> Inl ValueError \<and> (\<exists>line. writerow str fieldnames r = Inr line)"
    if "r \<in> set records" for r
  proof -
    from rows that obtain kvs where "r = JObj kvs" "fst ` set kvs \<subseteq> set fieldnames" by auto
    then show ?thesis by (simp add: writerow_def and_then_def dict_to_list_subset del: dict_to_list.simps)
  qed
  from write_rows_all [OF rows, of str "writeheader fieldnames"]
  obtain written where wr: "write_rows str fieldnames records (writeheader fieldnames) = (True, written)" by blast
  have save: "writable fs filename \<longrightarrow>
                  (\<exists>text. save_to_csv str fs (JArr records) filename
                     = Inr (True, fs\<lparr>files := (files fs)(filename \<mapsto> text)\<rparr>))"
    using ne ak wr by (auto simp: save_to_csv_def and_then_def Let_def fieldnames_def[symmetric])
  from ak sf so di sub each save show ?thesis
    unfolding Let_def fieldnames_def[symmetric] all_keys_def[symmetric] by simp
qed

theorem save_to_csv_no_extra_key_witness:
  "sorted_list_of_set (\<Union>r\<in>set [crime ''1'', JObj [(''area'', JStr ''06'')]]. key_set r)
     = [''area'', ''dr_no'', ''rpt_dist_no'']
   \<and> dict_to_list [''area'', ''dr_no'', ''rpt_dist_no''] (crime ''1'') \<noteq> Inl ValueError
   \<and> dict_to_list [''area'', ''dr_no'', ''rpt_dist_no''] (JObj [(''area'', JStr ''06'')])
         \<noteq> Inl ValueError
   \<and> (\<exists>written.
         save_to_csv (\<lambda>v. []) filesystem0 (JArr [crime ''1'', JObj [(''area'', JStr ''06'')]])
           ''out.csv''
         = Inr (True, filesystem0\<lparr>files := (files filesystem0)(''out.csv'' \<mapsto> written)\<rparr>))"
proof -
  have s: "sorted_list_of_set (\<Union>r\<in>set [crime ''1'', JObj [(''area'', JStr ''06'')]]. key_set r)
             = [''area'', ''dr_no'', ''rpt_dist_no'']"
    by code_simp
  from save_to_csv_no_extra_key
         [of "[crime ''1'', JObj [(''area'', JStr ''06'')]]" "\<lambda>v. []" filesystem0 "''out.csv''"]
  show ?thesis unfolding Let_def s by (simp add: crime_def filesystem0_def)
qed

end
